theory Spec2Isabelle
  imports Main "HOL-Library.Word"
begin

unbundle bit_operations_syntax

section \<open>Python values used by the scripts\<close>

text \<open>
  A \<open>bytes\<close> object is a list of 8-bit words; Python's unbounded integers are \<open>int\<close>.
  Exceptions are values: every \<open>raise\<close> of the modelled code is an \<open>Inl\<close>.
\<close>

type_synonym byte = "8 word"

datatype exn =
    StructError | IndexError | SocketError | ModbusException | UnicodeError
  | UnicodeEncodeError

text \<open>
  A \<open>str\<close> is a list of code points. \<open>print\<close> writes to a standard output that encodes
  UTF-8 with the strict error handler, Python's default: a lone surrogate (U+D800 to
  U+DFFF) cannot be encoded and \<open>print\<close> raises \<open>UnicodeEncodeError\<close>.
\<close>

type_synonym str = "nat list"

definition surrogate :: "nat \<Rightarrow> bool" where
  "surrogate c = (0xD800 \<le> c \<and> c \<le> 0xDFFF)"

definition print_str :: "str \<Rightarrow> exn + unit" where
  "print_str text = (if list_ex surrogate text then Inl UnicodeEncodeError else Inr ())"

definition localhost :: str where
  "localhost = map of_char ''localhost''"

text \<open>\<open>str(n)\<close> for an integer: its decimal digits, with a minus sign when negative.\<close>

fun digits :: "nat \<Rightarrow> str" where
  "digits n = (if n < 10 then [48 + n] else digits (n div 10) @ [48 + n mod 10])"

definition str_int :: "int \<Rightarrow> str" where
  "str_int n = (if n < 0 then 45 # digits (nat (- n)) else digits (nat n))"

text \<open>
  \<open>struct.pack\<close> and \<open>struct.unpack\<close> with a big-endian format string (\<open>'>...'\<close>:
  no padding). \<open>H\<close> is an unsigned 16-bit field, \<open>B\<close> an unsigned 8-bit field. Packing a
  value outside the field's range, or a wrong number of values, raises \<open>struct.error\<close>;
  so does unpacking a buffer whose size is not the size of the format.
\<close>

datatype fmt = Fmt_H | Fmt_B

fun pack_field :: "fmt \<Rightarrow> int \<Rightarrow> exn + byte list" where
  "pack_field Fmt_H v =
     (if 0 \<le> v \<and> v \<le> 65535 then Inr [word_of_int (v div 256), word_of_int (v mod 256)]
      else Inl StructError)"
| "pack_field Fmt_B v =
     (if 0 \<le> v \<and> v \<le> 255 then Inr [word_of_int v] else Inl StructError)"

fun struct_pack :: "fmt list \<Rightarrow> int list \<Rightarrow> exn + byte list" where
  "struct_pack [] [] = Inr []"
| "struct_pack (f # fs) (v # vs) =
     (case pack_field f v of
        Inl e \<Rightarrow> Inl e
      | Inr bs \<Rightarrow> (case struct_pack fs vs of Inl e \<Rightarrow> Inl e | Inr rest \<Rightarrow> Inr (bs @ rest)))"
| "struct_pack _ _ = Inl StructError"

fun struct_unpack :: "fmt list \<Rightarrow> byte list \<Rightarrow> exn + int list" where
  "struct_unpack [] [] = Inr []"
| "struct_unpack (Fmt_H # fs) (hi # lo # bs) =
     (case struct_unpack fs bs of
        Inl e \<Rightarrow> Inl e
      | Inr vs \<Rightarrow> Inr ((256 * uint hi + uint lo) # vs))"
| "struct_unpack (Fmt_B # fs) (b # bs) =
     (case struct_unpack fs bs of Inl e \<Rightarrow> Inl e | Inr vs \<Rightarrow> Inr (uint b # vs))"
| "struct_unpack _ _ = Inl StructError"

text \<open>The slice \<open>xs[a:b]\<close> for \<open>0 \<le> a\<close>, \<open>0 \<le> b\<close>: it never raises, it truncates.\<close>

definition slice :: "'a list \<Rightarrow> nat \<Rightarrow> nat \<Rightarrow> 'a list" where
  "slice xs a b = take (b - a) (drop a xs)"

text \<open>\<open>range(0, n, 2)\<close>: the even numbers below \<open>n\<close>.\<close>

definition range2 :: "nat \<Rightarrow> nat list" where
  "range2 n = map (\<lambda>k. 2 * k) [0 ..< (n + 1) div 2]"

section \<open>Request encoders\<close>

text \<open>
  \<open>check-registers.py\<close>, \<open>read_modbus_registers\<close>, lines 10-19, and
  \<open>simple-modbus-test.py\<close>, lines 17-28: format \<open>'>HHHBBHH'\<close>, transaction id 1.
\<close>

definition read_modbus_registers_request :: "int \<Rightarrow> int \<Rightarrow> int \<Rightarrow> exn + byte list" where
  "read_modbus_registers_request unit_id start_reg count =
     (let transaction_id = 1; protocol_id = 0; length = 6; function_code = 3
      in struct_pack [Fmt_H, Fmt_H, Fmt_H, Fmt_B, Fmt_B, Fmt_H, Fmt_H]
           [transaction_id, protocol_id, length, unit_id, function_code, start_reg, count])"

definition simple_modbus_test_request :: "exn + byte list" where
  "simple_modbus_test_request =
     (let transaction_id = 1; protocol_id = 0; length = 6; unit_id = 1; function_code = 3;
          start_address = 0; num_registers = 2
      in struct_pack [Fmt_H, Fmt_H, Fmt_H, Fmt_B, Fmt_B, Fmt_H, Fmt_H]
           [transaction_id, protocol_id, length, unit_id, function_code, start_address,
            num_registers])"

text \<open>
  \<open>test-modbus-connection.py\<close>, \<open>create_modbus_read_request\<close>, lines 12-32: format
  \<open>'>HHHBHH'\<close> for six values, then \<open>'>H'\<close> for the register count.
\<close>

definition create_modbus_read_request :: "int \<Rightarrow> int \<Rightarrow> int \<Rightarrow> exn + byte list" where
  "create_modbus_read_request unit_id start_address register_count =
     (let transaction_id = 1; protocol_id = 0; length = 6; function_code = 3
      in case struct_pack [Fmt_H, Fmt_H, Fmt_H, Fmt_B, Fmt_H, Fmt_H]
                [transaction_id, protocol_id, length, unit_id, function_code, start_address] of
           Inl e \<Rightarrow> Inl e
         | Inr request \<Rightarrow>
             (case struct_pack [Fmt_H] [register_count] of
                Inl e \<Rightarrow> Inl e
              | Inr tail \<Rightarrow> Inr (request @ tail)))"

section \<open>Response decoders\<close>

text \<open>
  \<open>test-modbus-connection.py\<close>, \<open>parse_modbus_response\<close>, lines 34-58. The function
  returns a pair \<open>(registers, error)\<close> with one component \<open>None\<close>; the error messages are
  kept as constructors carrying the numbers the message prints.
\<close>

datatype parse_error =
    TooShort nat
  | ModbusError int int
  | IncompleteData
  | UnexpectedFunction int

datatype parse_result = Registers "int list" | Error parse_error

text \<open>
  The loop \<open>for i in range(0, byte_count, 2)\<close>, over the list of its indices:
  \<open>struct.unpack('>H', response[9 + i:11 + i])[0]\<close> raises when the slice is short.
\<close>

fun unpack_registers :: "byte list \<Rightarrow> nat list \<Rightarrow> exn + int list" where
  "unpack_registers response [] = Inr []"
| "unpack_registers response (i # is) =
     (case struct_unpack [Fmt_H] (slice response (9 + i) (11 + i)) of
        Inl e \<Rightarrow> Inl e
      | Inr [] \<Rightarrow> Inl IndexError
      | Inr (reg_value # _) \<Rightarrow>
          (case unpack_registers response is of
             Inl e \<Rightarrow> Inl e
           | Inr registers \<Rightarrow> Inr (reg_value # registers)))"

fun parse_modbus_pdu :: "byte list \<Rightarrow> int list \<Rightarrow> exn + parse_result" where
  "parse_modbus_pdu response [transaction_id, protocol_id, length_field, unit_id, function_code] =
     (if function_code AND 0x80 \<noteq> 0 then
        (let error_code = uint (response ! 8)
         in Inr (Error (ModbusError (function_code AND 0x7F) error_code)))
      else if function_code = 0x03 then
        (let byte_count = unat (response ! 8)
         in if length response < 9 + byte_count then Inr (Error IncompleteData)
            else (case unpack_registers response (range2 byte_count) of
                    Inl e \<Rightarrow> Inl e
                  | Inr registers \<Rightarrow> Inr (Registers registers)))
      else Inr (Error (UnexpectedFunction function_code)))"
| "parse_modbus_pdu response _ = Inl StructError"

definition parse_modbus_response :: "byte list \<Rightarrow> exn + parse_result" where
  "parse_modbus_response response =
     (if length response < 9 then Inr (Error (TooShort (length response)))
      else (case struct_unpack [Fmt_H, Fmt_H, Fmt_H, Fmt_B, Fmt_B] (slice response 0 8) of
              Inl e \<Rightarrow> Inl e
            | Inr header \<Rightarrow> parse_modbus_pdu response header))"

text \<open>
  \<open>simple-modbus-test.py\<close>, \<open>simple_modbus_test\<close>, lines 43-65: what the script does with
  the received bytes. It returns \<open>True\<close> when it has parsed registers and \<open>False\<close>
  otherwise; an exception of the parse leaves this part of the function.
\<close>

fun unpack_data :: "byte list \<Rightarrow> nat list \<Rightarrow> exn + int list" where
  "unpack_data data [] = Inr []"
| "unpack_data data (i # is) =
     (case struct_unpack [Fmt_H] (slice data i (i + 2)) of
        Inl e \<Rightarrow> Inl e
      | Inr [] \<Rightarrow> Inl IndexError
      | Inr (reg_value # _) \<Rightarrow>
          (case unpack_data data is of
             Inl e \<Rightarrow> Inl e
           | Inr registers \<Rightarrow> Inr (reg_value # registers)))"

fun simple_modbus_test_pdu :: "byte list \<Rightarrow> int list \<Rightarrow> exn + bool" where
  "simple_modbus_test_pdu response
       [resp_trans_id, resp_proto_id, resp_length, resp_unit_id, resp_func_code] =
     (let function_code = 3
      in if resp_func_code = function_code then
           (let byte_count = unat (response ! 8)
            in if length response \<ge> 9 + byte_count then
                 (let data = slice response 9 (9 + byte_count)
                  in case unpack_data data (range2 (length data)) of
                       Inl e \<Rightarrow> Inl e
                     | Inr registers \<Rightarrow> Inr True)
               else Inr False)
         else Inr False)"
| "simple_modbus_test_pdu response _ = Inl StructError"

definition simple_modbus_test_response :: "byte list \<Rightarrow> exn + bool" where
  "simple_modbus_test_response response =
     (if length response \<ge> 9 then
        (case struct_unpack [Fmt_H, Fmt_H, Fmt_H, Fmt_B, Fmt_B] (slice response 0 8) of
           Inl e \<Rightarrow> Inl e
         | Inr header \<Rightarrow> simple_modbus_test_pdu response header)
      else Inr False)"

text \<open>
  The transport (connect, send, receive on a socket) is outside the scripts: it is a
  function from the request sent to the bytes received, or to the exception raised.
\<close>

type_synonym transport = "byte list \<Rightarrow> exn + byte list"

text \<open>
  \<open>check-registers.py\<close>, \<open>read_modbus_registers\<close>, lines 7-47. The loop of lines 38-41
  runs over \<open>range(0, len(reg_data), 2)\<close> and skips an index whose pair is incomplete.
\<close>

fun unpack_values :: "byte list \<Rightarrow> nat list \<Rightarrow> exn + int list" where
  "unpack_values reg_data [] = Inr []"
| "unpack_values reg_data (i # is) =
     (if i + 1 < length reg_data then
        (case struct_unpack [Fmt_H] (slice reg_data i (i + 2)) of
           Inl e \<Rightarrow> Inl e
         | Inr [] \<Rightarrow> Inl IndexError
         | Inr (val # _) \<Rightarrow>
             (case unpack_values reg_data is of
                Inl e \<Rightarrow> Inl e
              | Inr values \<Rightarrow> Inr (val # values)))
      else unpack_values reg_data is)"

definition read_modbus_registers_try ::
  "transport \<Rightarrow> int \<Rightarrow> int \<Rightarrow> int \<Rightarrow> exn + int list option" where
  "read_modbus_registers_try transport unit_id start_reg count =
     (case read_modbus_registers_request unit_id start_reg count of
        Inl e \<Rightarrow> Inl e
      | Inr request \<Rightarrow>
          (case transport request of
             Inl e \<Rightarrow> Inl e
           | Inr response \<Rightarrow>
               if length response < 9 then Inr None
               else (let reg_data = drop 9 response
                     in case unpack_values reg_data (range2 (length reg_data)) of
                          Inl e \<Rightarrow> Inl e
                        | Inr values \<Rightarrow> Inr (Some values))))"

text \<open>
  The handler of lines 45-47 prints \<open>f"Error reading {host}:{port} - {e}"\<close> and returns
  \<open>None\<close>. The message of the caught exception comes from the struct and socket
  libraries and is ASCII text; the line below ends where it would start. An exception of
  \<open>print\<close> is raised inside the handler and leaves the function. The transport stands for
  the socket connected to \<open>(host, port)\<close>.
\<close>

definition error_reading :: "str \<Rightarrow> int \<Rightarrow> exn \<Rightarrow> exn + unit" where
  "error_reading host port e =
     print_str (map of_char ''Error reading '' @ host @ map of_char '':'' @ str_int port
                @ map of_char '' - '')"

definition read_modbus_registers ::
  "transport \<Rightarrow> str \<Rightarrow> int \<Rightarrow> int \<Rightarrow> int \<Rightarrow> int \<Rightarrow> exn + int list option" where
  "read_modbus_registers transport host port unit_id start_reg count =
     (case read_modbus_registers_try transport unit_id start_reg count of
        Inl e \<Rightarrow>
          (case error_reading host port e of
             Inl raised_in_handler \<Rightarrow> Inl raised_in_handler
           | Inr printed_line \<Rightarrow> Inr None)
      | Inr result \<Rightarrow> Inr result)"

section \<open>32-bit counters\<close>

text \<open>\<open>check-registers.py\<close>, \<open>combine_32bit_counter\<close>, lines 49-51.\<close>

definition combine_32bit_counter :: "int \<Rightarrow> int \<Rightarrow> int" where
  "combine_32bit_counter high_reg low_reg = push_bit 16 high_reg OR low_reg"

text \<open>
  The call sites. \<open>check-registers.py\<close> lines 72-73 and 77-78:
  \<open>combine_32bit_counter(regs[1], regs[0])\<close> under \<open>len(regs) >= 2\<close> and
  \<open>combine_32bit_counter(regs[3], regs[2])\<close> under \<open>len(regs) >= 4\<close>; \<open>test-modbus-connection.py\<close> line 94:
  \<open>registers[1] << 16 | registers[0]\<close>; \<open>test_modbus_client.py\<close> lines 40-42. Each is
  guarded by, or only reached with, at least two registers.
\<close>

fun counter0_check_registers :: "int list \<Rightarrow> int option" where
  "counter0_check_registers (r0 # r1 # regs) = Some (combine_32bit_counter r1 r0)"
| "counter0_check_registers _ = None"

fun counter1_check_registers :: "int list \<Rightarrow> int option" where
  "counter1_check_registers (r0 # r1 # r2 # r3 # regs) = Some (combine_32bit_counter r3 r2)"
| "counter1_check_registers _ = None"

fun counter_value_connection :: "int list \<Rightarrow> int option" where
  "counter_value_connection (r0 # r1 # registers) = Some (push_bit 16 r1 OR r0)"
| "counter_value_connection _ = None"

fun counter_value_client :: "int list \<Rightarrow> exn + int" where
  "counter_value_client (r0 # r1 # registers) =
     (let low_word = r0; high_word = r1 in Inr (push_bit 16 high_word OR low_word))"
| "counter_value_client _ = Inl IndexError"

text \<open>
  Modelled from the spec: the Register Assembler \<open>combine(registers, wordOrder)\<close> of
  section 4.2 is not in the scripts, which only assemble low word first. It fails with
  \<open>InsufficientRegisters\<close> below two registers and folds the registers 16 bits at a time
  in the configured order.
\<close>

datatype word_order = LowFirst | HighFirst

datatype assembler_error = InsufficientRegisters

definition combine :: "int list \<Rightarrow> word_order \<Rightarrow> assembler_error + int" where
  "combine registers wordOrder =
     (if length registers < 2 then Inl InsufficientRegisters
      else Inr (case wordOrder of
                  LowFirst \<Rightarrow> foldr (\<lambda>r acc. push_bit 16 acc OR r) registers 0
                | HighFirst \<Rightarrow> foldl (\<lambda>acc r. push_bit 16 acc OR r) 0 registers))"

text \<open>
  \<open>check-registers.py\<close>, lines 56-81: one report per simulator. \<open>if regs:\<close> is false
  for \<open>None\<close> and for the empty list. The three simulators are on \<open>"localhost"\<close>, ports
  5502 to 5504; a transport stands for each of them, and the port only enters the line the
  handler prints. The call is at module level: an exception out of it ends the script.
\<close>

datatype report =
    Failed_to_read
  | Raw_registers "int list" "int option" "int option"
  | Script_ended exn

definition check_simulator :: "transport \<Rightarrow> report" where
  "check_simulator transport =
     (case read_modbus_registers transport localhost 5502 1 0 4 of
        Inl e \<Rightarrow> Script_ended e
      | Inr None \<Rightarrow> Failed_to_read
      | Inr (Some regs) \<Rightarrow>
          if regs = [] then Failed_to_read
          else Raw_registers regs (counter0_check_registers regs)
                 (counter1_check_registers regs))"

fun check_simulators :: "transport list \<Rightarrow> report list" where
  "check_simulators [] = []"
| "check_simulators (simulator # simulators) =
     (case check_simulator simulator of
        Script_ended e \<Rightarrow> [Script_ended e]
      | Failed_to_read \<Rightarrow> Failed_to_read # check_simulators simulators
      | Raw_registers regs counter0 counter1 \<Rightarrow>
          Raw_registers regs counter0 counter1 # check_simulators simulators)"

section \<open>The monitoring loop\<close>

text \<open>
  \<open>test_modbus_client.py\<close>, \<open>test_adam_simulator\<close>, lines 58-89. The pymodbus client is
  outside the script: a read returns a result object whose \<open>isError()\<close> is true, or one
  that carries registers, or it raises. One cycle of the \<open>while True\<close> loop sees the
  device through a function from the address read to that outcome. The state records the
  dictionary \<open>previous_values\<close>, the lines printed, the addresses read so far, and the
  exception that has ended the loop, if any: the \<open>try\<close> of line 21 encloses the whole
  loop, so the first exception leaves it.
\<close>

datatype read_result = Read_registers "int list" | Read_error

type_synonym client = "nat \<Rightarrow> exn + read_result"

datatype line = Change nat int int

record monitor_state =
  previous_values :: "nat \<rightharpoonup> int"
  printed :: "line list"
  reads :: "nat list"
  raised :: "exn option"

definition monitor_start :: monitor_state where
  "monitor_start = \<lparr>previous_values = Map.empty, printed = [], reads = [], raised = None\<rparr>"

definition compare_value :: "monitor_state \<Rightarrow> nat \<Rightarrow> int \<Rightarrow> monitor_state" where
  "compare_value s channel counter_value =
     (let s1 = (if previous_values s channel = None
                then s\<lparr>previous_values := (previous_values s)(channel \<mapsto> counter_value)\<rparr>
                else s)
      in if counter_value \<noteq> the (previous_values s1 channel) then
           (let delta = counter_value - the (previous_values s1 channel)
            in s1\<lparr>printed := printed s1 @ [Change channel counter_value delta],
                  previous_values := (previous_values s1)(channel \<mapsto> counter_value)\<rparr>)
         else s1)"

definition monitor_channel :: "client \<Rightarrow> monitor_state \<Rightarrow> nat \<Rightarrow> monitor_state" where
  "monitor_channel client s channel =
     (if raised s \<noteq> None then s
      else (let base_address = channel * 2;
                s0 = s\<lparr>reads := reads s @ [base_address]\<rparr>
            in case client base_address of
                 Inl e \<Rightarrow> s0\<lparr>raised := Some e\<rparr>
               | Inr Read_error \<Rightarrow> s0
               | Inr (Read_registers registers) \<Rightarrow>
                   (case counter_value_client registers of
                      Inl e \<Rightarrow> s0\<lparr>raised := Some e\<rparr>
                    | Inr counter_value \<Rightarrow> compare_value s0 channel counter_value)))"

definition monitor_cycle :: "monitor_state \<Rightarrow> client \<Rightarrow> monitor_state" where
  "monitor_cycle s client = foldl (monitor_channel client) s [0, 1, 2]"

text \<open>The first cycles of the loop, one client function for each.\<close>

definition monitor :: "client list \<Rightarrow> monitor_state" where
  "monitor cycles = foldl monitor_cycle monitor_start cycles"

section \<open>Lists, slices and bits\<close>

lemma take_Suc_nth: "n < length xs \<Longrightarrow> take (Suc n) xs = take n xs @ [xs ! n]"
  by (rule take_Suc_conv_app_nth)

lemma take8:
  assumes "8 \<le> length xs"
  shows "take 8 xs = [xs ! 0, xs ! 1, xs ! 2, xs ! 3, xs ! 4, xs ! 5, xs ! 6, xs ! 7]"
proof -
  have ne: "xs \<noteq> []" using assms by auto
  have "take (Suc (Suc (Suc (Suc (Suc (Suc (Suc (Suc 0)))))))) xs =
        [xs ! 0, xs ! Suc 0, xs ! Suc (Suc 0), xs ! Suc (Suc (Suc 0)),
         xs ! Suc (Suc (Suc (Suc 0))), xs ! Suc (Suc (Suc (Suc (Suc 0)))),
         xs ! Suc (Suc (Suc (Suc (Suc (Suc 0))))),
         xs ! Suc (Suc (Suc (Suc (Suc (Suc (Suc 0))))))]"
    using assms ne by (simp add: take_Suc_nth)
  then show ?thesis by (simp add: numeral_eq_Suc)
qed

lemma slice_pair:
  assumes "i + 2 \<le> length xs"
  shows "slice xs i (i + 2) = [xs ! i, xs ! (i + 1)]"
proof -
  have "drop i xs = xs ! i # drop (Suc i) xs"
    using assms by (simp add: Cons_nth_drop_Suc)
  moreover have "drop (Suc i) xs = xs ! (Suc i) # drop (Suc (Suc i)) xs"
    using assms by (simp add: Cons_nth_drop_Suc)
  ultimately show ?thesis by (simp add: slice_def)
qed

lemma shift_or_eq_add:
  fixes high low :: int
  assumes "0 \<le> low" "low < 65536"
  shows "push_bit 16 high OR low = high * 65536 + low"
proof -
  have low: "take_bit 16 low = low"
    using assms by (simp add: take_bit_int_eq_self)
  have "push_bit 16 high AND take_bit 16 low = 0"
    by (rule bit_eqI) (auto simp add: bit_simps)
  then have "push_bit 16 high + take_bit 16 low = push_bit 16 high OR take_bit 16 low"
    by (rule disjunctive_add_eq_or)
  then show ?thesis
    by (simp add: low push_bit_eq_mult)
qed

lemma high_bit_byte:
  fixes b :: byte
  shows "(uint b AND 0x80 \<noteq> 0) = (0x80 \<le> b)"
proof -
  have lt: "uint b < 256" using uint_bounded [of b] by simp
  have ge: "0 \<le> uint b" by simp
  have "(uint b AND 2 ^ 7 = 0) = (\<not> bit (uint b) 7)"
    by (rule and_exp_eq_0_iff_not_bit)
  moreover have "uint b div 128 = (if 128 \<le> uint b then 1 else 0)"
    using lt ge by auto
  then have "bit (uint b) 7 = (128 \<le> uint b)"
    by (simp add: bit_iff_odd)
  moreover have "(0x80 \<le> b) = (128 \<le> uint b)"
    by (simp add: word_le_def)
  ultimately show ?thesis by simp
qed

section \<open>The decoders, unfolded\<close>

lemma header_unpack:
  assumes "8 \<le> length response"
  shows "struct_unpack [Fmt_H, Fmt_H, Fmt_H, Fmt_B, Fmt_B] (slice response 0 8) =
     Inr [256 * uint (response ! 0) + uint (response ! 1),
          256 * uint (response ! 2) + uint (response ! 3),
          256 * uint (response ! 4) + uint (response ! 5),
          uint (response ! 6), uint (response ! 7)]"
  using assms by (simp add: slice_def take8)

lemma parse_modbus_response_unfold:
  "parse_modbus_response response =
     (if length response < 9 then Inr (Error (TooShort (length response)))
      else if uint (response ! 7) AND 0x80 \<noteq> 0 then
        Inr (Error (ModbusError (uint (response ! 7) AND 0x7F) (uint (response ! 8))))
      else if uint (response ! 7) = 3 then
        (if length response < 9 + unat (response ! 8) then Inr (Error IncompleteData)
         else (case unpack_registers response (range2 (unat (response ! 8))) of
                 Inl e \<Rightarrow> Inl e
               | Inr registers \<Rightarrow> Inr (Registers registers)))
      else Inr (Error (UnexpectedFunction (uint (response ! 7)))))"
  by (simp add: parse_modbus_response_def header_unpack Let_def)

lemma simple_modbus_test_response_unfold:
  "simple_modbus_test_response response =
     (if 9 \<le> length response then
        (if uint (response ! 7) = 3 then
           (if 9 + unat (response ! 8) \<le> length response then
              (case unpack_data (slice response 9 (9 + unat (response ! 8)))
                      (range2 (length (slice response 9 (9 + unat (response ! 8))))) of
                 Inl e \<Rightarrow> Inl e
               | Inr registers \<Rightarrow> Inr True)
            else Inr False)
         else Inr False)
      else Inr False)"
  by (simp add: simple_modbus_test_response_def header_unpack Let_def)

lemma unpack_registers_in_range:
  assumes "\<And>i. i \<in> set is \<Longrightarrow> 11 + i \<le> length response"
  shows "unpack_registers response is =
     Inr (map (\<lambda>i. 256 * uint (response ! (9 + i)) + uint (response ! (10 + i))) is)"
  using assms
proof (induction "is")
  case Nil
  then show ?case by simp
next
  case (Cons i "is")
  have "9 + i + 2 \<le> length response" using Cons.prems [of i] by simp
  then have "slice response (9 + i) (9 + i + 2) = [response ! (9 + i), response ! (9 + i + 1)]"
    by (rule slice_pair)
  then have sl: "slice response (9 + i) (11 + i) = [response ! (9 + i), response ! (10 + i)]"
    by (simp add: add.commute add.left_commute)
  have "unpack_registers response is =
     Inr (map (\<lambda>i. 256 * uint (response ! (9 + i)) + uint (response ! (10 + i))) is)"
    using Cons.IH Cons.prems by simp
  then show ?case by (simp add: sl)
qed

lemma range2_even: "even n \<Longrightarrow> range2 n = map (\<lambda>k. 2 * k) [0 ..< n div 2]"
  by (auto simp add: range2_def elim!: evenE)

lemma parse_modbus_response_even:
  assumes "9 \<le> length response" "response ! 7 = 3" "even (unat (response ! 8))"
  shows "parse_modbus_response response =
     (if length response < 9 + unat (response ! 8) then Inr (Error IncompleteData)
      else Inr (Registers (map (\<lambda>k. 256 * uint (response ! (9 + 2 * k))
                                      + uint (response ! (10 + 2 * k)))
                             [0 ..< unat (response ! 8) div 2])))"
proof (cases "length response < 9 + unat (response ! 8)")
  case True
  then show ?thesis using assms by (simp add: parse_modbus_response_unfold)
next
  case False
  have "\<And>i. i \<in> set (range2 (unat (response ! 8))) \<Longrightarrow> 11 + i \<le> length response"
    using False assms(3) by (auto simp add: range2_even elim!: evenE)
  then have "unpack_registers response (range2 (unat (response ! 8))) =
     Inr (map (\<lambda>i. 256 * uint (response ! (9 + i)) + uint (response ! (10 + i)))
            (range2 (unat (response ! 8))))"
    by (rule unpack_registers_in_range)
  then show ?thesis
    using False assms by (simp add: parse_modbus_response_unfold range2_even comp_def)
qed

lemma parse_modbus_response_take:
  assumes "9 \<le> length response" "response ! 7 = 3" "even (unat (response ! 8))"
    "9 + unat (response ! 8) \<le> length response"
  shows "parse_modbus_response (take (9 + unat (response ! 8)) response) =
         parse_modbus_response response"
proof -
  let ?n = "9 + unat (response ! 8)"
  let ?t = "take ?n response"
  have len: "length ?t = ?n" using assms(4) by simp
  have n7: "?t ! 7 = response ! 7" and n8: "?t ! 8 = response ! 8" by simp_all
  have regs: "map (\<lambda>k. 256 * uint (?t ! (9 + 2 * k)) + uint (?t ! (10 + 2 * k)))
                [0 ..< unat (response ! 8) div 2] =
              map (\<lambda>k. 256 * uint (response ! (9 + 2 * k)) + uint (response ! (10 + 2 * k)))
                [0 ..< unat (response ! 8) div 2]"
    using assms(3) by (intro map_cong refl) (auto elim!: evenE)
  have "parse_modbus_response ?t =
     Inr (Registers (map (\<lambda>k. 256 * uint (?t ! (9 + 2 * k)) + uint (?t ! (10 + 2 * k)))
                             [0 ..< unat (?t ! 8) div 2]))"
    using parse_modbus_response_even [of ?t] assms len by (simp only: n7 n8) simp
  moreover have "parse_modbus_response response =
     Inr (Registers (map (\<lambda>k. 256 * uint (response ! (9 + 2 * k))
                                      + uint (response ! (10 + 2 * k)))
                             [0 ..< unat (response ! 8) div 2]))"
    using parse_modbus_response_even [of response] assms by simp
  ultimately show ?thesis by (simp only: regs n8)
qed

lemma unpack_registers_Cons2:
  "unpack_registers (t1 # t2 # rest) is = unpack_registers (u1 # u2 # rest) is"
proof (induction "is")
  case Nil
  show ?case by simp
next
  case (Cons i "is")
  have sl: "slice (t1 # t2 # rest) (9 + i) (11 + i) = slice (u1 # u2 # rest) (9 + i) (11 + i)"
    by (simp add: slice_def drop_Cons')
  show ?case
    by (simp only: unpack_registers.simps sl Cons.IH)
qed

lemma unpack_values_filter:
  "unpack_values reg_data is =
     Inr (map (\<lambda>i. 256 * uint (reg_data ! i) + uint (reg_data ! (i + 1)))
            (filter (\<lambda>i. i + 1 < length reg_data) is))"
proof (induction "is")
  case Nil
  show ?case by simp
next
  case (Cons i "is")
  show ?case
  proof (cases "i + 1 < length reg_data")
    case True
    then have "i + 2 \<le> length reg_data" by simp
    then have "slice reg_data i (i + 2) = [reg_data ! i, reg_data ! (i + 1)]"
      by (rule slice_pair)
    then have sl: "slice reg_data i (Suc (Suc i)) = [reg_data ! i, reg_data ! Suc i]"
      by simp
    show ?thesis using True by (simp add: sl Cons.IH)
  next
    case False
    then show ?thesis by (simp add: Cons.IH)
  qed
qed

lemma filter_range2:
  "filter (\<lambda>i. i + 1 < n) (range2 n) = map (\<lambda>k. 2 * k) [0 ..< n div 2]"
proof (cases "even n")
  case True
  then obtain m where n: "n = 2 * m" by (auto elim: evenE)
  have "filter (\<lambda>k. 2 * k + 1 < 2 * m) [0 ..< m] = [0 ..< m]"
    by (rule filter_True) auto
  then show ?thesis by (simp add: range2_def n filter_map comp_def)
next
  case False
  then obtain m where n: "n = 2 * m + 1" by (auto elim: oddE)
  have "filter (\<lambda>k. k < m) [0 ..< m] = [0 ..< m]"
    by (rule filter_True) auto
  then show ?thesis by (simp add: range2_def n filter_map comp_def)
qed

lemma unpack_values_range2:
  "unpack_values reg_data (range2 (length reg_data)) =
     Inr (map (\<lambda>k. 256 * uint (reg_data ! (2 * k)) + uint (reg_data ! (2 * k + 1)))
            [0 ..< length reg_data div 2])"
proof -
  have "filter (\<lambda>i. Suc i < length reg_data) (range2 (length reg_data)) =
        map (\<lambda>k. 2 * k) [0 ..< length reg_data div 2]"
    using filter_range2 [of "length reg_data"] by simp
  then show ?thesis
    by (simp add: unpack_values_filter comp_def)
qed

lemma read_modbus_registers_try_closed:
  "read_modbus_registers_try transport unit_id start_reg count =
     (case read_modbus_registers_request unit_id start_reg count of
        Inl e \<Rightarrow> Inl e
      | Inr request \<Rightarrow>
          (case transport request of
             Inl e \<Rightarrow> Inl e
           | Inr response \<Rightarrow>
               Inr (if length response < 9 then None
                    else Some (map (\<lambda>k. 256 * uint (response ! (9 + 2 * k))
                                         + uint (response ! (10 + 2 * k)))
                                 [0 ..< (length response - 9) div 2]))))"
  by (simp add: read_modbus_registers_try_def unpack_values_range2 Let_def
      add.commute add.left_commute split: sum.splits)

section \<open>The line the handler prints\<close>

declare digits.simps [simp del]

lemma digits_no_surrogate: "\<not> list_ex surrogate (digits n)"
proof (induction n rule: digits.induct)
  case (1 n)
  show ?case
  proof (cases "n < 10")
    case True
    then show ?thesis by (simp add: digits.simps [of n] surrogate_def)
  next
    case False
    have "n mod 10 < 10" by simp
    then have "\<not> surrogate (48 + n mod 10)" by (simp add: surrogate_def)
    then show ?thesis using False "1.IH" by (simp add: digits.simps [of n])
  qed
qed

lemma str_int_no_surrogate: "\<not> list_ex surrogate (str_int n)"
  by (simp add: str_int_def digits_no_surrogate surrogate_def)

lemma of_char_small: "(of_char c :: nat) < 256"
proof -
  have "(of_char c :: nat) = of_char c mod 256" by (simp add: of_char_mod_256)
  also have "\<dots> < 256" by simp
  finally show ?thesis .
qed

lemma ascii_no_surrogate: "\<not> list_ex surrogate (map of_char text)"
proof -
  have "\<not> surrogate (of_char c)" for c :: char
    using of_char_small [of c] unfolding surrogate_def by linarith
  then show ?thesis by (simp add: list_ex_iff)
qed

lemma error_reading_closed:
  "error_reading host port e =
     (if list_ex surrogate host then Inl UnicodeEncodeError else Inr ())"
  unfolding error_reading_def print_str_def
  using ascii_no_surrogate [of "''Error reading ''"] ascii_no_surrogate [of "'':''"]
    ascii_no_surrogate [of "'' - ''"] str_int_no_surrogate [of port]
  by (simp only: list_ex_append) simp

lemma localhost_no_surrogate: "\<not> list_ex surrogate localhost"
  unfolding localhost_def by (rule ascii_no_surrogate)

lemma read_modbus_registers_closed:
  assumes "\<not> list_ex surrogate host"
  shows "read_modbus_registers transport host port unit_id start_reg count =
     Inr (case read_modbus_registers_request unit_id start_reg count of
            Inl e \<Rightarrow> None
          | Inr request \<Rightarrow>
              (case transport request of
                 Inl e \<Rightarrow> None
               | Inr response \<Rightarrow>
                   if length response < 9 then None
                   else Some (map (\<lambda>k. 256 * uint (response ! (9 + 2 * k))
                                        + uint (response ! (10 + 2 * k)))
                                [0 ..< (length response - 9) div 2])))"
  using assms
  by (simp add: read_modbus_registers_def read_modbus_registers_try_closed
      error_reading_closed split: sum.splits)

lemma check_simulator_raises: "check_simulator (\<lambda>request. Inl e) = Failed_to_read"
  by (simp add: check_simulator_def read_modbus_registers_closed localhost_no_surrogate
      split: sum.splits)

lemma check_simulator_returns: "check_simulator simulator \<noteq> Script_ended e"
  by (simp add: check_simulator_def read_modbus_registers_closed localhost_no_surrogate
      split: sum.splits option.splits)

lemma check_simulators_map: "check_simulators simulators = map check_simulator simulators"
proof (induction simulators)
  case Nil
  show ?case by simp
next
  case (Cons simulator simulators)
  show ?case
  proof (cases "check_simulator simulator")
    case Failed_to_read
    then show ?thesis using Cons.IH by simp
  next
    case (Raw_registers regs counter0 counter1)
    then show ?thesis using Cons.IH by simp
  next
    case (Script_ended e)
    then show ?thesis using check_simulator_returns [of simulator e] by simp
  qed
qed

section \<open>Steps of the monitoring loop\<close>

lemma compare_value_reads [simp]: "reads (compare_value s c v) = reads s"
  by (simp add: compare_value_def Let_def)

lemma compare_value_raised [simp]: "raised (compare_value s c v) = raised s"
  by (simp add: compare_value_def Let_def)

lemma compare_value_other:
  "c' \<noteq> c \<Longrightarrow> previous_values (compare_value s c v) c' = previous_values s c'"
  by (simp add: compare_value_def Let_def)

lemma compare_value_cases:
  "compare_value s channel v =
     (case previous_values s channel of
        None \<Rightarrow> s\<lparr>previous_values := (previous_values s)(channel \<mapsto> v)\<rparr>
      | Some p \<Rightarrow>
          if v = p then s
          else s\<lparr>printed := printed s @ [Change channel v (v - p)],
                 previous_values := (previous_values s)(channel \<mapsto> v)\<rparr>)"
  by (simp add: compare_value_def Let_def split: option.splits)

lemma monitor_channel_registers:
  assumes "raised s = None"
    and "client (channel * 2) = Inr (Read_registers (r0 # r1 # regs))"
  shows "monitor_channel client s channel =
     compare_value (s\<lparr>reads := reads s @ [channel * 2]\<rparr>) channel (push_bit 16 r1 OR r0)"
  using assms by (simp add: monitor_channel_def Let_def)

lemma monitor_channel_error:
  assumes "raised s = None" and "client (channel * 2) = Inr Read_error"
  shows "monitor_channel client s channel = s\<lparr>reads := reads s @ [channel * 2]\<rparr>"
  using assms by (simp add: monitor_channel_def Let_def)

lemma monitor_channel_raises:
  assumes "raised s = None" and "client (channel * 2) = Inl e"
  shows "monitor_channel client s channel =
     s\<lparr>reads := reads s @ [channel * 2], raised := Some e\<rparr>"
  using assms by (simp add: monitor_channel_def Let_def)

lemma monitor_channel_stopped:
  "raised s \<noteq> None \<Longrightarrow> monitor_channel client s channel = s"
  by (simp add: monitor_channel_def)

lemma monitor_cycle_stopped: "raised s \<noteq> None \<Longrightarrow> monitor_cycle s client = s"
  by (simp add: monitor_cycle_def monitor_channel_stopped)

lemma monitor_cycles_stopped: "raised s \<noteq> None \<Longrightarrow> foldl monitor_cycle s cycles = s"
  by (induction cycles) (simp_all add: monitor_cycle_stopped)

lemma monitor_channel_answers:
  assumes "raised s = None"
    and "client (c * 2) = Inr Read_error
      \<or> (\<exists>r0 r1 regs. client (c * 2) = Inr (Read_registers (r0 # r1 # regs)))"
  shows "reads (monitor_channel client s c) = reads s @ [c * 2]"
    and "raised (monitor_channel client s c) = None"
    and "c' \<noteq> c \<or> client (c * 2) = Inr Read_error \<Longrightarrow>
         previous_values (monitor_channel client s c) c' = previous_values s c'"
  using assms
  by (auto simp add: monitor_channel_error monitor_channel_registers compare_value_other)

lemma monitor_cycle_answers:
  assumes "raised s = None"
    and ok: "\<And>address. client address = Inr Read_error
      \<or> (\<exists>r0 r1 regs. client address = Inr (Read_registers (r0 # r1 # regs)))"
  shows "reads (monitor_cycle s client) = reads s @ [0, 2, 4]"
    and "raised (monitor_cycle s client) = None"
    and "client (channel * 2) = Inr Read_error \<Longrightarrow>
         previous_values (monitor_cycle s client) channel = previous_values s channel"
proof -
  let ?s0 = "monitor_channel client s 0"
  let ?s1 = "monitor_channel client ?s0 1"
  let ?s2 = "monitor_channel client ?s1 2"
  have cyc: "monitor_cycle s client = ?s2" by (simp add: monitor_cycle_def)
  note a0 = monitor_channel_answers [where s = s and client = client and c = 0,
      OF assms(1) ok [of "0 * 2"]]
  note a1 = monitor_channel_answers [where s = ?s0 and client = client and c = 1,
      OF a0(2) ok [of "1 * 2"]]
  note a2 = monitor_channel_answers [where s = ?s1 and client = client and c = 2,
      OF a1(2) ok [of "2 * 2"]]
  show "reads (monitor_cycle s client) = reads s @ [0, 2, 4]"
    using a0(1) a1(1) a2(1) by (simp add: cyc)
  show "raised (monitor_cycle s client) = None"
    using a2(2) by (simp add: cyc)
  assume err: "client (channel * 2) = Inr Read_error"
  have p0: "previous_values ?s0 channel = previous_values s channel"
    using err by (intro a0(3)) (cases "channel = 0"; simp)
  have p1: "previous_values ?s1 channel = previous_values ?s0 channel"
    using err by (intro a1(3)) (cases "channel = 1"; simp)
  have p2: "previous_values ?s2 channel = previous_values ?s1 channel"
    using err by (intro a2(3)) (cases "channel = 2"; simp)
  show "previous_values (monitor_cycle s client) channel = previous_values s channel"
    by (simp only: cyc p0 p1 p2)
qed

lemma observed_sequence:
  "map (\<lambda>n. printed (monitor (take n
      (map (\<lambda>v address. if address = 0 then Inr (Read_registers [v, 0]) else Inr Read_error)
         [100, 100, 150, 130])))) [1, 2, 3, 4]
   = [[], [], [Change 0 150 50], [Change 0 150 50, Change 0 130 (- 20)]]"
  by code_simp

section \<open>Request layout\<close>

lemma struct_pack_transaction_id:
  assumes "struct_pack (Fmt_H # fs) (1 # vs) = Inr request"
  shows "\<exists>rest. request = 0 # 1 # rest"
  using assms by (auto split: sum.splits)

lemma read_modbus_registers_request_layout:
  assumes "0 \<le> unit_id" "unit_id \<le> 255" "0 \<le> start_reg" "start_reg \<le> 65535"
    "0 \<le> count" "count \<le> 65535"
  shows "read_modbus_registers_request unit_id start_reg count =
     Inr [0, 1, 0, 0, 0, 6, word_of_int unit_id, 3,
          word_of_int (start_reg div 256), word_of_int (start_reg mod 256),
          word_of_int (count div 256), word_of_int (count mod 256)]"
  using assms by (simp add: read_modbus_registers_request_def)

lemma read_modbus_registers_request_example:
  "read_modbus_registers_request 1 0 4 = Inr [0, 1, 0, 0, 0, 6, 1, 3, 0, 0, 0, 4]"
  by (simp add: read_modbus_registers_request_def)

text \<open>
  C1. The request for unit 1, start address 0, count 4 must be the 12 bytes
  \<open>00 01 00 00 00 06 01 03 00 00 00 04\<close>. \<open>create_modbus_read_request\<close> packs the function
  code as a 16-bit field and sends 13 bytes, with \<open>00 03\<close> where the function code byte
  \<open>03\<close> belongs.
\<close>

theorem create_modbus_read_request_13_bytes:
  "create_modbus_read_request 1 0 4 = Inr [0, 1, 0, 0, 0, 6, 1, 0, 3, 0, 0, 0, 4]
   \<and> create_modbus_read_request 1 0 4 \<noteq> Inr [0, 1, 0, 0, 0, 6, 1, 3, 0, 0, 0, 4]
   \<and> read_modbus_registers_request 1 0 4 = Inr [0, 1, 0, 0, 0, 6, 1, 3, 0, 0, 0, 4]"
  by (simp add: create_modbus_read_request_def read_modbus_registers_request_def)

section \<open>Exception responses\<close>

text \<open>
  C5. A response of at least 9 bytes whose function code byte has its high bit set decodes
  to the error that carries the function code without that bit and the exception code
  found in the ninth byte; function code \<open>0x83\<close> gives function 3. No register list is
  returned, and \<open>simple_modbus_test\<close> reports no success on such a response either.
\<close>

theorem exception_response_is_ModbusError:
  assumes "9 \<le> length response" and "0x80 \<le> response ! 7"
  shows "parse_modbus_response response =
           Inr (Error (ModbusError (uint (response ! 7) AND 0x7F) (uint (response ! 8))))
       \<and> (response ! 7 = 0x83 \<longrightarrow>
            parse_modbus_response response = Inr (Error (ModbusError 3 (uint (response ! 8)))))
       \<and> (\<forall>registers. parse_modbus_response response \<noteq> Inr (Registers registers))
       \<and> simple_modbus_test_response response = Inr False"
proof -
  have bit: "uint (response ! 7) AND 0x80 \<noteq> 0"
    using assms(2) by (simp only: high_bit_byte)
  have parsed: "parse_modbus_response response =
      Inr (Error (ModbusError (uint (response ! 7) AND 0x7F) (uint (response ! 8))))"
    using assms(1) bit by (simp add: parse_modbus_response_unfold)
  have "128 \<le> uint (response ! 7)"
    using assms(2) by (simp add: word_le_def)
  then have "uint (response ! 7) \<noteq> 3" by simp
  then have simple: "simple_modbus_test_response response = Inr False"
    by (simp add: simple_modbus_test_response_unfold)
  show ?thesis
    using parsed simple by auto
qed

theorem exception_response_is_ModbusError_witness:
  "9 \<le> length [0, 1, 0, 0, 0, 3, 1, 0x83, 2 :: byte]
   \<and> 0x80 \<le> [0, 1, 0, 0, 0, 3, 1, 0x83, 2 :: byte] ! 7
   \<and> parse_modbus_response [0, 1, 0, 0, 0, 3, 1, 0x83, 2] = Inr (Error (ModbusError 3 2))
   \<and> simple_modbus_test_response [0, 1, 0, 0, 0, 3, 1, 0x83, 2] = Inr False"
  using exception_response_is_ModbusError [of "[0, 1, 0, 0, 0, 3, 1, 0x83, 2]"]
  by simp

section \<open>Counter assembly\<close>

text \<open>
  C6. With two registers, \<open>combine\<close> under \<open>LowFirst\<close> is
  \<open>registers[1] << 16 | registers[0]\<close>, which is what \<open>combine_32bit_counter(regs[1],
  regs[0])\<close> computes in the scripts, and under \<open>HighFirst\<close> it is
  \<open>registers[0] << 16 | registers[1]\<close>; the three examples evaluate to 1, 65536 and 65536.
\<close>

theorem combine_word_order:
  "combine [r0, r1] LowFirst = Inr (push_bit 16 r1 OR r0)
   \<and> combine [r0, r1] HighFirst = Inr (push_bit 16 r0 OR r1)
   \<and> combine [r0, r1] LowFirst = Inr (combine_32bit_counter r1 r0)
   \<and> combine [r0, r1] HighFirst = Inr (combine_32bit_counter r0 r1)
   \<and> combine [0x0001, 0x0000] LowFirst = Inr 1
   \<and> combine [0x0000, 0x0001] LowFirst = Inr 65536
   \<and> combine [0x0001, 0x0000] HighFirst = Inr 65536"
  by (simp add: combine_def combine_32bit_counter_def)

text \<open>
  C10. For 16-bit register values \<open>r0\<close>, \<open>r1\<close> the three assemblies of the scripts are
  the same function of the pair: each gives \<open>r1 * 65536 + r0\<close>, low word first.
\<close>

theorem counter_assemblies_agree:
  assumes "0 \<le> r0" "r0 < 65536" "0 \<le> r1" "r1 < 65536"
  shows "combine_32bit_counter r1 r0 = r1 * 65536 + r0
       \<and> counter0_check_registers (r0 # r1 # regs) = Some (r1 * 65536 + r0)
       \<and> counter_value_connection (r0 # r1 # regs) = Some (r1 * 65536 + r0)
       \<and> counter_value_client (r0 # r1 # regs) = Inr (r1 * 65536 + r0)"
  using assms by (simp add: combine_32bit_counter_def shift_or_eq_add)

theorem counter_assemblies_agree_witness:
  "(0::int) \<le> 0x1234 \<and> (0x1234::int) < 65536 \<and> (0::int) \<le> 0x0002 \<and> (0x0002::int) < 65536
   \<and> combine_32bit_counter 0x0002 0x1234 = 0x00021234
   \<and> counter0_check_registers [0x1234, 0x0002] = Some 0x00021234
   \<and> counter_value_connection [0x1234, 0x0002] = Some 0x00021234
   \<and> counter_value_client [0x1234, 0x0002] = Inr 0x00021234"
  using counter_assemblies_agree [of "0x1234" "0x0002" "[]"]
  by simp

section \<open>What the decoders do with a frame\<close>

text \<open>
  C2 as stated fails: the request carries transaction id 1, and a well-formed response with
  transaction id 2 is decoded to its registers by \<open>parse_modbus_response\<close> and accepted by
  \<open>simple_modbus_test\<close>.
\<close>

theorem transaction_id_not_checked:
  "map_sum id (take 2) (create_modbus_read_request 1 0 2) = Inr [0, 1]
   \<and> parse_modbus_response [0, 2, 0, 0, 0, 7, 1, 3, 4, 0, 100, 0, 0] = Inr (Registers [100, 0])
   \<and> simple_modbus_test_response [0, 2, 0, 0, 0, 7, 1, 3, 4, 0, 100, 0, 0] = Inr True"
  by code_simp

text \<open>
  C2, amended. The decoders take no expected transaction id and never compare the one
  received: the result for a buffer does not depend on its first two bytes, so a response
  with another transaction id is decoded exactly as the one with the request's id.
\<close>

theorem transaction_id_ignored:
  "parse_modbus_response (t1 # t2 # rest) = parse_modbus_response (u1 # u2 # rest)
   \<and> simple_modbus_test_response (t1 # t2 # rest) =
       simple_modbus_test_response (u1 # u2 # rest)"
proof
  show "parse_modbus_response (t1 # t2 # rest) = parse_modbus_response (u1 # u2 # rest)"
    by (simp add: parse_modbus_response_unfold unpack_registers_Cons2 [of t1 t2 rest _ u1 u2])
  show "simple_modbus_test_response (t1 # t2 # rest) =
        simple_modbus_test_response (u1 # u2 # rest)"
    by (simp add: simple_modbus_test_response_unfold slice_def drop_Cons')
qed

text \<open>
  C4 as stated fails. With the odd byte count 1, \<open>parse_modbus_response\<close> builds a register
  from the byte at offset 9 and the byte after it, which lies beyond \<open>9 + byteCount\<close>: two
  buffers that agree on their first 10 bytes give different registers. And
  \<open>read_modbus_registers\<close> of \<open>check-registers.py\<close> never reads the byte count: with byte
  count 2 and four data bytes it returns two registers.
\<close>

theorem bytes_beyond_byte_count_are_read:
  "parse_modbus_response [0, 1, 0, 0, 0, 4, 1, 3, 1, 0x12, 0x34] = Inr (Registers [0x1234])
   \<and> parse_modbus_response [0, 1, 0, 0, 0, 4, 1, 3, 1, 0x12, 0x99] = Inr (Registers [0x1299])
   \<and> read_modbus_registers (\<lambda>request. Inr [0, 1, 0, 0, 0, 7, 1, 3, 2, 0, 5, 0, 7])
         localhost 5502 1 0 4
       = Inr (Some [5, 7])"
proof -
  have upt2: "[0 ..< 2] = [0, Suc 0]" by (simp add: upt_rec)
  have "parse_modbus_response [0, 1, 0, 0, 0, 4, 1, 3, 1, 0x12, 0x34] = Inr (Registers [0x1234])"
    by code_simp
  moreover have
    "parse_modbus_response [0, 1, 0, 0, 0, 4, 1, 3, 1, 0x12, 0x99] = Inr (Registers [0x1299])"
    by code_simp
  moreover have
    "read_modbus_registers (\<lambda>request. Inr [0, 1, 0, 0, 0, 7, 1, 3, 2, 0, 5, 0, 7])
       localhost 5502 1 0 4 = Inr (Some [5, 7])"
    by (simp add: read_modbus_registers_closed localhost_no_surrogate
        read_modbus_registers_request_def upt2)
  ultimately show ?thesis by simp
qed

text \<open>
  C4, amended. For a buffer of at least 9 bytes with function code 3 and an even byte
  count in its ninth byte, \<open>parse_modbus_response\<close> fails with the incomplete-data error
  when the buffer holds fewer than \<open>9 + byteCount\<close> bytes, and otherwise returns the
  \<open>byteCount div 2\<close> registers read big-endian from the \<open>byteCount\<close> bytes that follow,
  in order; cutting the buffer after \<open>9 + byteCount\<close> bytes does not change the result.
\<close>

theorem registers_from_byte_count:
  assumes "9 \<le> length response" "response ! 7 = 3" "even (unat (response ! 8))"
  shows "parse_modbus_response response =
     (if length response < 9 + unat (response ! 8) then Inr (Error IncompleteData)
      else Inr (Registers (map (\<lambda>k. 256 * uint (response ! (9 + 2 * k))
                                      + uint (response ! (10 + 2 * k)))
                             [0 ..< unat (response ! 8) div 2])))
   \<and> (9 + unat (response ! 8) \<le> length response \<longrightarrow>
        parse_modbus_response (take (9 + unat (response ! 8)) response) =
        parse_modbus_response response)"
  using assms parse_modbus_response_even [of response] parse_modbus_response_take [of response]
  by blast

theorem registers_from_byte_count_witness:
  "9 \<le> length [0, 1, 0, 0, 0, 7, 1, 3, 4, 0, 100, 0, 7, 0xAA :: byte]
   \<and> [0, 1, 0, 0, 0, 7, 1, 3, 4, 0, 100, 0, 7, 0xAA :: byte] ! 7 = 3
   \<and> even (unat ([0, 1, 0, 0, 0, 7, 1, 3, 4, 0, 100, 0, 7, 0xAA :: byte] ! 8))
   \<and> parse_modbus_response [0, 1, 0, 0, 0, 7, 1, 3, 4, 0, 100, 0, 7, 0xAA]
       = Inr (Registers [100, 7])
   \<and> parse_modbus_response [0, 1, 0, 0, 0, 7, 1, 3, 4, 0, 100, 0, 7]
       = parse_modbus_response [0, 1, 0, 0, 0, 7, 1, 3, 4, 0, 100, 0, 7, 0xAA]"
proof -
  have upt2: "[0 ..< 2] = [0, Suc 0]" by (simp add: upt_rec)
  show ?thesis
    using registers_from_byte_count [of "[0, 1, 0, 0, 0, 7, 1, 3, 4, 0, 100, 0, 7, 0xAA]"]
    by (simp add: upt2)
qed




section \<open>Transaction ids\<close>

text \<open>
  C8 as stated fails: the four requests that \<open>test_multiple_unit_ids\<close> sends one after
  the other all carry transaction id \<open>00 01\<close>, and so does every request of
  \<open>check-registers.py\<close>; the id neither grows nor wraps.
\<close>

theorem successive_requests_same_transaction_id:
  "map (\<lambda>unit_id. map_sum id (take 2) (create_modbus_read_request unit_id 0 2)) [0, 1, 2, 255]
     = [Inr [0, 1], Inr [0, 1], Inr [0, 1], Inr [0, 1]]
   \<and> map_sum id (take 2) (read_modbus_registers_request 1 0 4) = Inr [0, 1]"
  by code_simp

text \<open>
  C8, amended. Every request the scripts build carries the constant transaction id 1 in
  its first two bytes, whatever the unit, address and count: successive reads send the
  same transaction id.
\<close>

theorem request_transaction_id_constant:
  "(read_modbus_registers_request unit_id start_reg count = Inr request
      \<longrightarrow> take 2 request = [0, 1])
   \<and> (create_modbus_read_request unit_id' start_address register_count = Inr request'
      \<longrightarrow> take 2 request' = [0, 1])
   \<and> simple_modbus_test_request = Inr [0, 1, 0, 0, 0, 6, 1, 3, 0, 0, 0, 2]"
proof (intro conjI impI)
  assume "read_modbus_registers_request unit_id start_reg count = Inr request"
  then have "\<exists>rest. request = 0 # 1 # rest"
    unfolding read_modbus_registers_request_def Let_def by (rule struct_pack_transaction_id)
  then show "take 2 request = [0, 1]" by auto
next
  assume "create_modbus_read_request unit_id' start_address register_count = Inr request'"
  then obtain head tail where
    head: "struct_pack [Fmt_H, Fmt_H, Fmt_H, Fmt_B, Fmt_H, Fmt_H]
             [1, 0, 6, unit_id', 3, start_address] = Inr head"
    and req: "request' = head @ tail"
    unfolding create_modbus_read_request_def Let_def
    by (auto split: sum.splits simp del: struct_pack.simps)
  from head have "\<exists>rest. head = 0 # 1 # rest" by (rule struct_pack_transaction_id)
  then show "take 2 request' = [0, 1]" using req by auto
next
  show "simple_modbus_test_request = Inr [0, 1, 0, 0, 0, 6, 1, 3, 0, 0, 0, 2]"
    by (simp add: simple_modbus_test_request_def)
qed

theorem request_transaction_id_constant_witness:
  "read_modbus_registers_request 1 2 2 = Inr [0, 1, 0, 0, 0, 6, 1, 3, 0, 2, 0, 2]
   \<and> take 2 [0, 1, 0, 0, 0, 6, 1, 3, 0, 2, 0, 2 :: byte] = [0, 1]
   \<and> create_modbus_read_request 255 0 2 = Inr [0, 1, 0, 0, 0, 6, 255, 0, 3, 0, 0, 0, 2]
   \<and> take 2 [0, 1, 0, 0, 0, 6, 255, 0, 3, 0, 0, 0, 2 :: byte] = [0, 1]"
  using request_transaction_id_constant
    [of 1 2 2 "[0, 1, 0, 0, 0, 6, 1, 3, 0, 2, 0, 2]"
        255 0 2 "[0, 1, 0, 0, 0, 6, 255, 0, 3, 0, 0, 0, 2]"]
  by (simp add: read_modbus_registers_request_def create_modbus_read_request_def)

section \<open>Change detection\<close>

text \<open>
  C3 as stated fails: the first successful read of a channel stores the value and prints
  nothing, so the values 100, 100, 150, 130 give two lines, not a snapshot and two changes.
\<close>

theorem first_read_prints_nothing:
  "printed (monitor [\<lambda>address. Inr (Read_registers [100, 0])]) = []
   \<and> previous_values (monitor [\<lambda>address. Inr (Read_registers [100, 0])]) 0 = Some 100
   \<and> printed (monitor
        (map (\<lambda>v address. if address = 0 then Inr (Read_registers [v, 0]) else Inr Read_error)
           [100, 100, 150, 130]))
       = [Change 0 150 50, Change 0 130 (- 20)]"
  by code_simp

text \<open>
  C3, amended. For every channel, a successful read while the loop runs does this: when no
  value is stored for the channel it stores the value and prints nothing; when the value
  equals the stored one it changes nothing and prints nothing; when it differs it prints
  the change with delta = value minus stored value, a signed integer, and stores the value.
  The values 100, 100, 150, 130 of channel 0 over four cycles print nothing, nothing,
  change(150, +50), change(130, -20).
\<close>

theorem monitor_change_detection:
  assumes "raised s = None"
    and "client (channel * 2) = Inr (Read_registers (r0 # r1 # regs))"
  shows "monitor_channel client s channel =
     (case previous_values s channel of
        None \<Rightarrow>
          s\<lparr>reads := reads s @ [channel * 2],
            previous_values := (previous_values s)(channel \<mapsto> push_bit 16 r1 OR r0)\<rparr>
      | Some p \<Rightarrow>
          if push_bit 16 r1 OR r0 = p then s\<lparr>reads := reads s @ [channel * 2]\<rparr>
          else s\<lparr>reads := reads s @ [channel * 2],
                 printed := printed s @
                   [Change channel (push_bit 16 r1 OR r0) ((push_bit 16 r1 OR r0) - p)],
                 previous_values := (previous_values s)(channel \<mapsto> push_bit 16 r1 OR r0)\<rparr>)
   \<and> map (\<lambda>n. printed (monitor (take n
        (map (\<lambda>v address. if address = 0 then Inr (Read_registers [v, 0]) else Inr Read_error)
           [100, 100, 150, 130])))) [1, 2, 3, 4]
      = [[], [], [Change 0 150 50], [Change 0 150 50, Change 0 130 (- 20)]]"
  using assms observed_sequence
  by (simp add: monitor_channel_registers compare_value_cases split: option.splits)

theorem monitor_change_detection_witness:
  "raised monitor_start = None
   \<and> printed (monitor_channel (\<lambda>address. Inr (Read_registers [100, 0])) monitor_start 0) = []
   \<and> previous_values
        (monitor_channel (\<lambda>address. Inr (Read_registers [100, 0])) monitor_start 0) 0
       = Some 100
   \<and> printed (monitor_channel (\<lambda>address. Inr (Read_registers [130, 0]))
        (monitor_start\<lparr>previous_values := [0 \<mapsto> 150]\<rparr>) 0) = [Change 0 130 (- 20)]"
  using monitor_change_detection
      [of monitor_start "\<lambda>address. Inr (Read_registers [100, 0])" 0 100 0 "[]"]
    monitor_change_detection
      [of "monitor_start\<lparr>previous_values := [0 \<mapsto> 150]\<rparr>"
          "\<lambda>address. Inr (Read_registers [130, 0])" 0 130 0 "[]"]
  by (simp add: monitor_start_def)

section \<open>Failed reads\<close>

text \<open>
  C7 as stated fails: a read that raises leaves the loop. When the read of channel 0
  raises, channels 1 and 2 are not read in that cycle, nothing is stored for them, and no
  later cycle runs.
\<close>

theorem raised_read_ends_monitoring:
  "reads (monitor [\<lambda>address. if address = 0 then Inl ModbusException
                              else Inr (Read_registers [5, 0]),
                   \<lambda>address. Inr (Read_registers [6, 0])]) = [0]
   \<and> raised (monitor [\<lambda>address. if address = 0 then Inl ModbusException
                                else Inr (Read_registers [5, 0]),
                     \<lambda>address. Inr (Read_registers [6, 0])]) = Some ModbusException
   \<and> map (previous_values (monitor [\<lambda>address. if address = 0 then Inl ModbusException
                                              else Inr (Read_registers [5, 0]),
                                   \<lambda>address. Inr (Read_registers [6, 0])])) [0, 1, 2]
       = [None, None, None]"
  by code_simp

text \<open>
  C7, amended. In a cycle whose reads all return (an error result, or at least two
  registers) all three channels are read and the loop goes on, and a channel whose read
  returned an error result keeps its stored value, or stays without one. A read that
  raises stores nothing either, but it ends the loop: nothing more is read. In
  \<open>check-registers.py\<close> a simulator whose transport raises is reported as failed and the
  other simulators are read as without it.
\<close>

theorem read_failure_isolation:
  assumes "raised s = None"
    and "\<And>address. client address = Inr Read_error
      \<or> (\<exists>r0 r1 regs. client address = Inr (Read_registers (r0 # r1 # regs)))"
  shows "reads (monitor_cycle s client) = reads s @ [0, 2, 4]
   \<and> raised (monitor_cycle s client) = None
   \<and> (client (channel * 2) = Inr Read_error \<longrightarrow>
        previous_values (monitor_cycle s client) channel = previous_values s channel)
   \<and> (failing (channel * 2) = Inl e \<longrightarrow>
        monitor_channel failing s channel
          = s\<lparr>reads := reads s @ [channel * 2], raised := Some e\<rparr>
        \<and> foldl monitor_cycle (monitor_channel failing s channel) cycles
          = monitor_channel failing s channel)
   \<and> check_simulators (before @ (\<lambda>request. Inl e) # after)
       = check_simulators before @ Failed_to_read # check_simulators after"
proof (intro conjI impI)
  show "reads (monitor_cycle s client) = reads s @ [0, 2, 4]"
    using assms by (rule monitor_cycle_answers(1))
  show "raised (monitor_cycle s client) = None"
    using assms by (rule monitor_cycle_answers(2))
  show "previous_values (monitor_cycle s client) channel = previous_values s channel"
    if "client (channel * 2) = Inr Read_error"
    using assms that by (rule monitor_cycle_answers(3))
  show "check_simulators (before @ (\<lambda>request. Inl e) # after)
       = check_simulators before @ Failed_to_read # check_simulators after"
    by (simp add: check_simulators_map check_simulator_raises)
next
  assume fails: "failing (channel * 2) = Inl e"
  show step: "monitor_channel failing s channel
      = s\<lparr>reads := reads s @ [channel * 2], raised := Some e\<rparr>"
    using assms(1) fails by (rule monitor_channel_raises)
  have "raised (monitor_channel failing s channel) \<noteq> None"
    by (simp add: step)
  then show "foldl monitor_cycle (monitor_channel failing s channel) cycles
      = monitor_channel failing s channel"
    by (rule monitor_cycles_stopped)
qed

theorem read_failure_isolation_witness:
  "raised monitor_start = None
   \<and> (\<forall>address. (if address = (0::nat) then Inr Read_error else Inr (Read_registers [5, 0]))
          = (Inr Read_error :: exn + read_result)
        \<or> (\<exists>r0 r1 regs. (if address = 0 then Inr Read_error else Inr (Read_registers [5, 0]))
              = (Inr (Read_registers (r0 # r1 # regs)) :: exn + read_result)))
   \<and> reads (monitor_cycle monitor_start
        (\<lambda>address. if address = 0 then Inr Read_error else Inr (Read_registers [5, 0])))
       = [0, 2, 4]
   \<and> previous_values (monitor_cycle monitor_start
        (\<lambda>address. if address = 0 then Inr Read_error else Inr (Read_registers [5, 0]))) 0
       = None
   \<and> raised (monitor_channel (\<lambda>address. Inl SocketError) monitor_start 0) = Some SocketError"
proof -
  let ?client = "\<lambda>address::nat. if address = 0 then (Inr Read_error :: exn + read_result)
                               else Inr (Read_registers [5, 0])"
  have ok: "\<And>address. ?client address = Inr Read_error
      \<or> (\<exists>r0 r1 regs. ?client address = Inr (Read_registers (r0 # r1 # regs)))"
    by simp
  have start: "raised monitor_start = None"
    by (simp add: monitor_start_def)
  show ?thesis
    using read_failure_isolation
      [of monitor_start ?client 0 "\<lambda>address. Inl SocketError" SocketError "[]" "[]" "[]",
       OF start ok]
    by (simp add: monitor_start_def)
qed

end
